theory Spec2Isabelle
  imports Complex_Main "HOL-Library.Signed_Division"
begin

section \<open>Shared types\<close>

text \<open>
  The TypeScript types \<^verbatim>\<open>Position\<close>, \<^verbatim>\<open>Action\<close>, \<^verbatim>\<open>MazeCell\<close> and \<^verbatim>\<open>QTable\<close>.
  Coordinates are integers. The fields \<^verbatim>\<open>x\<close> and \<^verbatim>\<open>y\<close> are written \<open>pos_x\<close>,
  \<open>pos_y\<close> (\<open>cell_x\<close>, \<open>cell_y\<close> for a cell), as a record field is a constant of the
  theory. JavaScript numbers that hold Q-values and parameters are modelled as reals:
  rounding, infinities and NaN are outside the model.
\<close>

record Position =
  pos_x :: int
  pos_y :: int

datatype Action = UP | RIGHT | DOWN | LEFT

text \<open>The numeric value of an enum member, used as an array index.\<close>

fun action_index :: "Action \<Rightarrow> nat" where
  "action_index UP = 0"
| "action_index RIGHT = 1"
| "action_index DOWN = 2"
| "action_index LEFT = 3"

record MazeCell =
  cell_x :: int
  cell_y :: int
  isWall :: bool

section \<open>State keys\<close>

text \<open>
  The template literal \<^verbatim>\<open>`${pos.x},${pos.y}`\<close>: the decimal form of both integers,
  separated by a comma (JavaScript prints every digit of an integer below \<open>10^21\<close>).
\<close>

definition digit_char :: "nat \<Rightarrow> char" where
  "digit_char d = char_of (48 + d)"

fun dec_nat :: "nat \<Rightarrow> string" where
  "dec_nat n = (if n < 10 then [digit_char n]
                else dec_nat (n div 10) @ [digit_char (n mod 10)])"

declare dec_nat.simps [simp del]

definition int_to_string :: "int \<Rightarrow> string" where
  "int_to_string i = (if i < 0 then CHR ''-'' # dec_nat (nat (- i)) else dec_nat (nat i))"

definition getStateKey :: "Position \<Rightarrow> string" where
  "getStateKey pos = int_to_string (pos_x pos) @ '','' @ int_to_string (pos_y pos)"

section \<open>The object store\<close>

text \<open>
  A Q-table is a JavaScript object whose properties hold arrays, and both objects and
  arrays are handled by reference: \<^verbatim>\<open>getQValues\<close> returns the very array stored in
  the table, \<^verbatim>\<open>update\<close> writes into it in place, and \<^verbatim>\<open>setQTable\<close> receives an
  object of the caller. The store keeps table objects and row arrays at addresses;
  allocation takes the next free address.
\<close>

type_synonym QTable = "string \<rightharpoonup> nat"

record heap =
  objs :: "nat \<Rightarrow> QTable"
  nobjs :: nat
  arrs :: "nat \<Rightarrow> real list"
  narrs :: nat

definition empty_heap :: heap where
  "empty_heap = \<lparr>objs = (\<lambda>_. Map.empty), nobjs = 0, arrs = (\<lambda>_. []), narrs = 0\<rparr>"

definition new_obj :: "QTable \<Rightarrow> heap \<Rightarrow> nat \<times> heap" where
  "new_obj t h = (nobjs h, h\<lparr>objs := (objs h)(nobjs h := t), nobjs := Suc (nobjs h)\<rparr>)"

definition new_arr :: "real list \<Rightarrow> heap \<Rightarrow> nat \<times> heap" where
  "new_arr vs h = (narrs h, h\<lparr>arrs := (arrs h)(narrs h := vs), narrs := Suc (narrs h)\<rparr>)"

text \<open>
  The assignment \<^verbatim>\<open>xs[i] = v\<close>. Inside the array it replaces the element; beyond the
  end JavaScript extends the array to length \<open>i + 1\<close>, leaving holes, whose content the
  model does not specify.
\<close>

definition array_set :: "real list \<Rightarrow> nat \<Rightarrow> real \<Rightarrow> real list" where
  "array_set vs i v =
     (if i < length vs then vs[i := v]
      else vs @ replicate (i - length vs) undefined @ [v])"

text \<open>
  The read \<^verbatim>\<open>xs[i]\<close> where the result may be \<^verbatim>\<open>undefined\<close>: an index that is
  negative or beyond the end.
\<close>

definition array_get :: "'a list \<Rightarrow> int \<Rightarrow> 'a option" where
  "array_get vs i = (if 0 \<le> i \<and> i < int (length vs) then Some (vs ! nat i) else None)"

text \<open>
  \<^verbatim>\<open>Math.max(...vs)\<close>. For an empty argument list JavaScript returns \<^verbatim>\<open>-Infinity\<close>,
  which is no real number; the model leaves that one value unspecified.
\<close>

fun Math_max :: "real list \<Rightarrow> real" where
  "Math_max [] = undefined"
| "Math_max (v # vs) = fold max vs v"

section \<open>QLearningAgent\<close>

record QLearningAgent =
  qTable :: nat
  alpha :: real
  gamma :: real
  epsilon :: real
  initialEpsilon :: real
  minEpsilon :: real
  decayRate :: real

definition actions :: "Action list" where
  "actions = [UP, RIGHT, DOWN, LEFT]"

text \<open>
  The constructor: the field initialisers run first (allocating the empty table
  object), then the three assignments of the constructor body.
\<close>

definition QLearningAgent_new :: "real \<Rightarrow> real \<Rightarrow> real \<Rightarrow> heap \<Rightarrow> QLearningAgent \<times> heap" where
  "QLearningAgent_new al ga ep h =
     (let (t, h1) = new_obj Map.empty h;
          a0 = \<lparr>qTable = t, alpha = 0.1, gamma = 0.9, epsilon = 0.1,
                initialEpsilon = 0.1, minEpsilon = 0.01, decayRate = 0.995\<rparr>
      in (a0\<lparr>alpha := al, gamma := ga, epsilon := ep, initialEpsilon := ep\<rparr>, h1))"

text \<open>
  \<^verbatim>\<open>getQValues\<close> returns the address of the row. A row array is an object and so
  always truthy: the test \<^verbatim>\<open>!this.qTable[key]\<close> holds exactly for an absent key.
\<close>

definition getQValues :: "QLearningAgent \<Rightarrow> Position \<Rightarrow> heap \<Rightarrow> nat \<times> heap" where
  "getQValues a pos h =
     (let key = getStateKey pos in
      case objs h (qTable a) key of
        None \<Rightarrow>
          (let (r, h1) = new_arr [0, 0, 0, 0] h
           in (r, h1\<lparr>objs := (objs h1)(qTable a := (objs h1 (qTable a))(key \<mapsto> r))\<rparr>))
      | Some r \<Rightarrow> (r, h))"

definition getMaxQ :: "QLearningAgent \<Rightarrow> Position \<Rightarrow> heap \<Rightarrow> real \<times> heap" where
  "getMaxQ a pos h = (let (r, h1) = getQValues a pos h in (Math_max (arrs h1 r), h1))"

text \<open>
  \<^verbatim>\<open>chooseAction\<close> calls \<^verbatim>\<open>Math.random()\<close> twice on either path; the two results are
  the parameters \<open>r1\<close> and \<open>r2\<close>. The result is \<open>None\<close> where the source returns
  \<^verbatim>\<open>undefined\<close> (an index outside the array). In the filter, \<^verbatim>\<open>qValues[a]\<close> beyond the
  end of the row is \<^verbatim>\<open>undefined\<close>, which is never \<^verbatim>\<open>===\<close> to a number.
\<close>

definition chooseAction ::
    "real \<Rightarrow> real \<Rightarrow> QLearningAgent \<Rightarrow> Position \<Rightarrow> heap \<Rightarrow> Action option \<times> heap" where
  "chooseAction r1 r2 a pos h =
     (if r1 < epsilon a
      then (array_get actions \<lfloor>r2 * real (length actions)\<rfloor>, h)
      else
        (let (r, h1) = getQValues a pos h;
             qValues = arrs h1 r;
             maxQ = Math_max qValues;
             bestActions =
               filter (\<lambda>c. action_index c < length qValues \<and> qValues ! action_index c = maxQ)
                 actions
         in (array_get bestActions \<lfloor>r2 * real (length bestActions)\<rfloor>, h1)))"

definition update :: "QLearningAgent \<Rightarrow> Position \<Rightarrow> Action \<Rightarrow> real \<Rightarrow> Position \<Rightarrow> heap \<Rightarrow> heap" where
  "update a state action reward nextState h =
     (let (cur, h1) = getQValues a state h;
          oldQ = arrs h1 cur ! action_index action;
          (maxNextQ, h2) = getMaxQ a nextState h1;
          newQ = oldQ + alpha a * (reward + gamma a * maxNextQ - oldQ);
          h3 = h2\<lparr>arrs := (arrs h2)(cur := array_set (arrs h2 cur) (action_index action) newQ)\<rparr>
      in h3\<lparr>objs := (objs h3)(qTable a := (objs h3 (qTable a))(getStateKey state \<mapsto> cur))\<rparr>)"

definition decayCuriosity :: "QLearningAgent \<Rightarrow> QLearningAgent" where
  "decayCuriosity a = a\<lparr>epsilon := max (minEpsilon a) (epsilon a * decayRate a)\<rparr>"

definition resetQTable :: "QLearningAgent \<Rightarrow> heap \<Rightarrow> QLearningAgent \<times> heap" where
  "resetQTable a h =
     (let (t, h1) = new_obj Map.empty h
      in (a\<lparr>qTable := t, epsilon := initialEpsilon a\<rparr>, h1))"

definition setParameters :: "real \<Rightarrow> real \<Rightarrow> real \<Rightarrow> QLearningAgent \<Rightarrow> QLearningAgent" where
  "setParameters al ga ie a = a\<lparr>alpha := al, gamma := ga, initialEpsilon := ie, epsilon := ie\<rparr>"

text \<open>
  \<^verbatim>\<open>this.qTable = { ...newQTable }\<close>: the spread creates a new object and copies each
  own property of the argument, that is each key with the reference to its row.
\<close>

definition setQTable :: "QLearningAgent \<Rightarrow> nat \<Rightarrow> heap \<Rightarrow> QLearningAgent \<times> heap" where
  "setQTable a newQTable h =
     (let (t, h1) = new_obj (objs h newQTable) h in (a\<lparr>qTable := t\<rparr>, h1))"

subsection \<open>What a caller can do to an object it holds\<close>

text \<open>
  The statements a caller of \<^verbatim>\<open>setQTable\<close> can run on its own table object \<open>t\<close>
  afterwards: \<^verbatim>\<open>t[k] = [...]\<close> (as the test suite does), \<^verbatim>\<open>delete t[k]\<close>, and the
  write \<^verbatim>\<open>t[k][i] = v\<close> into a row, which throws when \<^verbatim>\<open>t[k]\<close> is absent.
\<close>

definition caller_put_row :: "nat \<Rightarrow> string \<Rightarrow> real list \<Rightarrow> heap \<Rightarrow> heap" where
  "caller_put_row t k vs h =
     (let (r, h1) = new_arr vs h in h1\<lparr>objs := (objs h1)(t := (objs h1 t)(k \<mapsto> r))\<rparr>)"

definition caller_delete_key :: "nat \<Rightarrow> string \<Rightarrow> heap \<Rightarrow> heap" where
  "caller_delete_key t k h = h\<lparr>objs := (objs h)(t := (objs h t)(k := None))\<rparr>"

definition caller_write_row :: "nat \<Rightarrow> string \<Rightarrow> nat \<Rightarrow> real \<Rightarrow> heap \<Rightarrow> heap option" where
  "caller_write_row t k i v h =
     (case objs h t k of
        None \<Rightarrow> None
      | Some r \<Rightarrow> Some (h\<lparr>arrs := (arrs h)(r := array_set (arrs h r) i v)\<rparr>))"

subsection \<open>The table as its content\<close>

text \<open>The rows an agent's table holds, read through the store.\<close>

definition table_of :: "heap \<Rightarrow> nat \<Rightarrow> (string \<rightharpoonup> real list)" where
  "table_of h t = (\<lambda>k. map_option (arrs h) (objs h t k))"

text \<open>
  A table object is allocated and refers to allocated rows only. This holds of every
  object a running program can hold, as a reference is never forged.
\<close>

definition table_ok :: "heap \<Rightarrow> nat \<Rightarrow> bool" where
  "table_ok h t \<longleftrightarrow> t < nobjs h \<and> (\<forall>k r. objs h t k = Some r \<longrightarrow> r < narrs h)"

text \<open>The invariant of the Q-table: every key present has a row of exactly 4 values.\<close>

definition table_inv :: "heap \<Rightarrow> nat \<Rightarrow> bool" where
  "table_inv h t \<longleftrightarrow> table_ok h t \<and> (\<forall>k r. objs h t k = Some r \<longrightarrow> length (arrs h r) = 4)"

subsection \<open>States of the test suite\<close>

text \<open>
  The states the agent's tests start from: a caller that holds the table
  \<^verbatim>\<open>{ "1,1": [1, 2, 3, 4] }\<close> at address 0, and the agent of \<^verbatim>\<open>beforeEach\<close>,
  \<^verbatim>\<open>new QLearningAgent(0.1, 0.9, 0.1)\<close>, constructed next to it.
\<close>

definition caller_heap :: heap where
  "caller_heap = caller_put_row 0 ''1,1'' [1, 2, 3, 4] (snd (new_obj Map.empty empty_heap))"

definition test_agent :: QLearningAgent where
  "test_agent = fst (QLearningAgent_new 0.1 0.9 0.1 caller_heap)"

definition test_heap :: heap where
  "test_heap = snd (QLearningAgent_new 0.1 0.9 0.1 caller_heap)"

text \<open>The row a table holds for a key, or the zeros an absent key stands for.\<close>

definition row_or_zeros :: "real list option \<Rightarrow> real list" where
  "row_or_zeros v = (case v of None \<Rightarrow> [0, 0, 0, 0] | Some row \<Rightarrow> row)"

section \<open>MazeGenerator\<close>

text \<open>
  \<^verbatim>\<open>SeededRandom\<close> holds one number, its seed. \<^verbatim>\<open>next()\<close> stores the new seed and
  returns it divided by 233280. The operator \<^verbatim>\<open>%\<close> takes the sign of the dividend,
  as \<open>smod\<close> does. All seeds are integers far below \<open>2^53\<close>, so the integer arithmetic
  is exact in JavaScript. The quotient is modelled as a real number; the double that
  JavaScript computes is the nearest one, again at least 0 and below 1.
\<close>

definition SeededRandom_next :: "int \<Rightarrow> real \<times> int" where
  "SeededRandom_next s =
     (let s' = (s * 9301 + 49297) smod 233280 in (real_of_int s' / 233280, s'))"

record MazeGenerator =
  width :: int
  height :: int
  rng :: int

definition MazeGenerator_new :: "int \<Rightarrow> int \<Rightarrow> MazeGenerator" where
  "MazeGenerator_new w h = \<lparr>width = w, height = h, rng = 555\<rparr>"

type_synonym grid = "MazeCell list list"

text \<open>
  \<^verbatim>\<open>Array.from({ length: n }, f)\<close> builds \<open>f\<close> of the indices below \<open>n\<close>; a negative
  length counts as 0.
\<close>

definition init_grid :: "int \<Rightarrow> int \<Rightarrow> grid" where
  "init_grid w h =
     map (\<lambda>j. map (\<lambda>i. \<lparr>cell_x = int i, cell_y = int j, isWall = True\<rparr>) [0..<nat w])
       [0..<nat h]"

text \<open>
  \<^verbatim>\<open>grid[y][x].isWall = false\<close>. When \<^verbatim>\<open>grid[y]\<close> or \<^verbatim>\<open>grid[y][x]\<close> is
  \<^verbatim>\<open>undefined\<close> the statement throws a TypeError, here \<open>None\<close>.
\<close>

definition clear_wall :: "grid \<Rightarrow> int \<Rightarrow> int \<Rightarrow> grid option" where
  "clear_wall gr j i =
     (case array_get gr j of
        None \<Rightarrow> None
      | Some row \<Rightarrow>
          (case array_get row i of
             None \<Rightarrow> None
           | Some c \<Rightarrow> Some (gr[nat j := row[nat i := c\<lparr>isWall := False\<rparr>]])))"

text \<open>A sequence of such statements, in order, stopping at the first that throws.\<close>

fun clear_walls :: "grid \<Rightarrow> (int \<times> int) list \<Rightarrow> grid option" where
  "clear_walls gr [] = Some gr"
| "clear_walls gr ((j, i) # ps) =
     (case clear_wall gr j i of None \<Rightarrow> None | Some gr' \<Rightarrow> clear_walls gr' ps)"

text \<open>
  \<^verbatim>\<open>(a + b) / 2\<close> used as an index: a number that is not an integer names no
  element of an array.
\<close>

definition midpoint :: "int \<Rightarrow> int \<Rightarrow> int option" where
  "midpoint a b = (if even (a + b) then Some ((a + b) div 2) else None)"

definition directions :: "Position list" where
  "directions =
     [\<lparr>pos_x = 0, pos_y = - 2\<rparr>, \<lparr>pos_x = 2, pos_y = 0\<rparr>,
      \<lparr>pos_x = 0, pos_y = 2\<rparr>, \<lparr>pos_x = - 2, pos_y = 0\<rparr>]"

definition getUnvisitedNeighbors :: "MazeGenerator \<Rightarrow> Position \<Rightarrow> string set \<Rightarrow> Position list" where
  "getUnvisitedNeighbors g pos visited =
     filter
       (\<lambda>n. pos_x n > 0 \<and> pos_x n < width g - 1 \<and>
            pos_y n > 0 \<and> pos_y n < height g - 1 \<and>
            getStateKey n \<notin> visited)
       (map (\<lambda>dir. \<lparr>pos_x = pos_x pos + pos_x dir, pos_y = pos_y pos + pos_y dir\<rparr>) directions)"

text \<open>
  The choice \<^verbatim>\<open>neighbors[Math.floor(this.rng.next() * neighbors.length)]\<close>, with the
  generator after the call of \<^verbatim>\<open>next()\<close>.
\<close>

definition pick_neighbor :: "MazeGenerator \<Rightarrow> Position list \<Rightarrow> Position option \<times> MazeGenerator" where
  "pick_neighbor g neighbors =
     (let (r, s') = SeededRandom_next (rng g)
      in (array_get neighbors \<lfloor>r * real (length neighbors)\<rfloor>, g\<lparr>rng := s'\<rparr>))"

text \<open>
  The body of the branch \<^verbatim>\<open>neighbors.length > 0\<close>: pick the next cell, open the
  cell between and the cell itself. Reading \<^verbatim>\<open>next.x\<close> of an \<^verbatim>\<open>undefined\<close> choice
  throws.
\<close>

definition carve_to ::
    "MazeGenerator \<Rightarrow> grid \<Rightarrow> Position \<Rightarrow> Position list \<Rightarrow> MazeGenerator \<times> (Position \<times> grid) option" where
  "carve_to g gr current neighbors =
     (let (chosen, g') = pick_neighbor g neighbors in
      (g',
       case chosen of
         None \<Rightarrow> None
       | Some nxt \<Rightarrow>
           (case (midpoint (pos_y current) (pos_y nxt), midpoint (pos_x current) (pos_x nxt)) of
              (Some wallY, Some wallX) \<Rightarrow>
                (case clear_walls gr [(wallY, wallX), (pos_y nxt, pos_x nxt)] of
                   None \<Rightarrow> None
                 | Some gr' \<Rightarrow> Some (nxt, gr'))
            | _ \<Rightarrow> None)))"

text \<open>The cells the carving can ever add to \<open>visited\<close>, by their keys.\<close>

definition interior_keys :: "MazeGenerator \<Rightarrow> string set" where
  "interior_keys g =
     (\<lambda>(i, j). getStateKey \<lparr>pos_x = i, pos_y = j\<rparr>) ` ({0<..<width g - 1} \<times> {0<..<height g - 1})"

text \<open>
  The loop \<^verbatim>\<open>while (stack.length > 0)\<close>. The top of the stack is the last element.
  The result is the generator (its seed advanced) and the grid, or \<open>None\<close> when a
  statement of the body throws.
\<close>

function carve ::
    "MazeGenerator \<Rightarrow> grid \<Rightarrow> Position list \<Rightarrow> string set \<Rightarrow> MazeGenerator \<times> grid option" where
  "carve g gr stack visited =
     (if length stack > 0 then
        (let current = last stack;
             neighbors = getUnvisitedNeighbors g current visited
         in if length neighbors > 0 then
              (case carve_to g gr current neighbors of
                 (g', None) \<Rightarrow> (g', None)
               | (g', Some (nxt, gr')) \<Rightarrow>
                   carve g' gr' (stack @ [nxt]) (insert (getStateKey nxt) visited))
            else carve g gr (butlast stack) visited)
      else (g, Some gr))"
  by pat_completeness auto

text \<open>
  \<^verbatim>\<open>generate()\<close> returns the generator as the call leaves it and the grid, or
  \<open>None\<close> when the call throws. The first statement replaces the random generator
  by a new one with seed 555.
\<close>

definition generate :: "MazeGenerator \<Rightarrow> MazeGenerator \<times> grid option" where
  "generate g0 =
     (let g = g0\<lparr>rng := 555\<rparr>;
          gr = init_grid (width g) (height g);
          startNode = \<lparr>pos_x = 1, pos_y = 1\<rparr>
      in case clear_wall gr (pos_y startNode) (pos_x startNode) of
           None \<Rightarrow> (g, None)
         | Some gr1 \<Rightarrow>
             (case carve g gr1 [startNode] {getStateKey startNode} of
                (g', None) \<Rightarrow> (g', None)
              | (g', Some gr2) \<Rightarrow>
                  (g', clear_walls gr2
                         [(0, 0), (0, 1), (1, 0), (1, 1),
                          (height g - 1, width g - 1), (height g - 2, width g - 1),
                          (height g - 1, width g - 2), (height g - 2, width g - 2)])))"

subsection \<open>Shape and content of a grid\<close>

text \<open>A grid of \<open>h\<close> rows that all have \<open>w\<close> cells.\<close>

definition grid_dims :: "grid \<Rightarrow> int \<Rightarrow> int \<Rightarrow> bool" where
  "grid_dims gr w h \<longleftrightarrow> map length gr = replicate (nat h) (nat w)"

text \<open>\<^verbatim>\<open>grid[j][i]\<close> exists and \<^verbatim>\<open>grid[j][i].isWall\<close> is false.\<close>

definition is_open :: "grid \<Rightarrow> int \<Rightarrow> int \<Rightarrow> bool" where
  "is_open gr j i =
     (case array_get gr j of
        None \<Rightarrow> False
      | Some row \<Rightarrow> (case array_get row i of None \<Rightarrow> False | Some c \<Rightarrow> \<not> isWall c))"

text \<open>A position that names a cell of the generator's grid.\<close>

definition in_grid :: "MazeGenerator \<Rightarrow> Position \<Rightarrow> bool" where
  "in_grid g p \<longleftrightarrow> 0 \<le> pos_x p \<and> pos_x p < width g \<and> 0 \<le> pos_y p \<and> pos_y p < height g"

section \<open>Termination of the carving loop\<close>

text \<open>
  Every pass of the loop either adds the key of an interior cell that was not yet
  visited, or pops the stack: the number of interior keys still unvisited, then the
  height of the stack, decreases.
\<close>

lemma finite_interior_keys: "finite (interior_keys g)"
  by (simp add: interior_keys_def)

lemma neighbors_interior:
  "n \<in> set (getUnvisitedNeighbors g p v) \<Longrightarrow> getStateKey n \<in> interior_keys g \<and> getStateKey n \<notin> v"
proof -
  assume a: "n \<in> set (getUnvisitedNeighbors g p v)"
  then have b: "0 < pos_x n" "pos_x n < width g - 1" "0 < pos_y n" "pos_y n < height g - 1"
    and c: "getStateKey n \<notin> v"
    by (auto simp: getUnvisitedNeighbors_def)
  have "getStateKey n = (\<lambda>(i, j). getStateKey \<lparr>pos_x = i, pos_y = j\<rparr>) (pos_x n, pos_y n)"
    by (simp add: getStateKey_def)
  moreover have "(pos_x n, pos_y n) \<in> {0<..<width g - 1} \<times> {0<..<height g - 1}"
    using b by simp
  ultimately have "getStateKey n \<in> interior_keys g"
    unfolding interior_keys_def by (rule image_eqI)
  with c show ?thesis by simp
qed

lemma array_get_Some_mem: "array_get vs i = Some v \<Longrightarrow> v \<in> set vs"
  by (auto simp: array_get_def split: if_splits)

lemma carve_to_Some:
  "carve_to g gr c ns = (g', Some (nxt, gr')) \<Longrightarrow>
     nxt \<in> set ns \<and> width g' = width g \<and> height g' = height g"
  by (auto simp: carve_to_def pick_neighbor_def Let_def split: prod.splits option.splits
      dest: array_get_Some_mem)

lemma interior_keys_cong:
  "width g' = width g \<Longrightarrow> height g' = height g \<Longrightarrow> interior_keys g' = interior_keys g"
  by (simp add: interior_keys_def)

lemma card_visit_less:
  assumes "k \<in> interior_keys g" "k \<notin> v"
  shows "card (interior_keys g - insert k v) < card (interior_keys g - v)"
proof -
  have "interior_keys g - insert k v \<subset> interior_keys g - v"
    using assms by auto
  then show ?thesis
    by (intro psubset_card_mono) (auto simp: finite_interior_keys)
qed

lemma carve_to_decreases:
  assumes "(g', Some (nxt, gr')) = carve_to g gr c (getUnvisitedNeighbors g c v)"
  shows "card (interior_keys g' - insert (getStateKey nxt) v) < card (interior_keys g - v)"
proof -
  from assms have eq: "carve_to g gr c (getUnvisitedNeighbors g c v) = (g', Some (nxt, gr'))"
    by simp
  from carve_to_Some [OF eq] have n: "nxt \<in> set (getUnvisitedNeighbors g c v)"
    and w: "width g' = width g" "height g' = height g" by simp_all
  from neighbors_interior [OF n] card_visit_less [of "getStateKey nxt" g v]
  show ?thesis by (simp add: interior_keys_cong [OF w])
qed

termination carve
proof (relation "measures [\<lambda>(g, gr, stack, visited). card (interior_keys g - visited),
                           \<lambda>(g, gr, stack, visited). length stack]", goal_cases)
  case 1
  show ?case by simp
next
  case 2
  then show ?case by (auto dest: carve_to_decreases)
next
  case 3
  then show ?case by simp
qed

section \<open>Facts about the store and the table\<close>

lemma action_index_less: "action_index c < 4"
  by (cases c) simp_all

lemma getQValues_binds:
  "objs (snd (getQValues a p h)) (qTable a) (getStateKey p) = Some (fst (getQValues a p h))"
  by (simp add: getQValues_def new_arr_def Let_def split: option.splits)

lemma getQValues_keeps:
  "objs h (qTable a) k = Some r \<Longrightarrow> objs (snd (getQValues a p h)) (qTable a) k = Some r"
  by (auto simp: getQValues_def new_arr_def Let_def split: option.splits)

lemma update_unfold:
  "update a s c rew s' h =
     (let h1 = snd (getQValues a s h);
          cur = fst (getQValues a s h);
          h2 = snd (getQValues a s' h1);
          oldQ = arrs h1 cur ! action_index c;
          newQ = oldQ + alpha a * (rew + gamma a * Math_max (arrs h2 (fst (getQValues a s' h1))) - oldQ)
      in h2\<lparr>arrs := (arrs h2)(cur := array_set (arrs h2 cur) (action_index c) newQ)\<rparr>)"
proof -
  let ?h1 = "snd (getQValues a s h)" and ?cur = "fst (getQValues a s h)"
  let ?h2 = "snd (getQValues a s' ?h1)"
  have "objs ?h2 (qTable a) (getStateKey s) = Some ?cur"
    by (intro getQValues_keeps getQValues_binds)
  then have "\<And>f. (?h2\<lparr>arrs := f\<rparr>)\<lparr>objs := (objs ?h2)(qTable a := (objs ?h2 (qTable a))(getStateKey s \<mapsto> ?cur))\<rparr>
      = ?h2\<lparr>arrs := f\<rparr>"
    by (simp add: map_upd_triv)
  then show ?thesis
    by (simp add: update_def getMaxQ_def Let_def split_beta)
qed

lemma table_inv_new:
  "table_inv (snd (QLearningAgent_new al ga ep h)) (qTable (fst (QLearningAgent_new al ga ep h)))"
  by (simp add: QLearningAgent_new_def new_obj_def table_inv_def table_ok_def)

lemma table_of_new:
  "table_of (snd (QLearningAgent_new al ga ep h)) (qTable (fst (QLearningAgent_new al ga ep h)))
     = Map.empty"
  by (simp add: QLearningAgent_new_def new_obj_def table_of_def)

lemma table_inv_getQValues:
  "table_inv h (qTable a) \<Longrightarrow> table_inv (snd (getQValues a p h)) (qTable a)"
  by (auto simp: getQValues_def new_arr_def table_inv_def table_ok_def Let_def less_Suc_eq
      split: option.splits if_splits)

lemma table_inv_getMaxQ:
  "table_inv h (qTable a) \<Longrightarrow> table_inv (snd (getMaxQ a p h)) (qTable a)"
  using table_inv_getQValues [of h a p]
  by (cases "getQValues a p h") (simp add: getMaxQ_def)

lemma table_inv_chooseAction:
  "table_inv h (qTable a) \<Longrightarrow> table_inv (snd (chooseAction r1 r2 a p h)) (qTable a)"
  using table_inv_getQValues [of h a p]
  by (cases "getQValues a p h") (simp add: chooseAction_def Let_def)

lemma table_inv_write:
  assumes "table_inv h t" "objs h t k = Some r" "i < 4"
  shows "table_inv (h\<lparr>arrs := (arrs h)(r := array_set (arrs h r) i v)\<rparr>) t"
proof -
  from assms have "length (arrs h r) = 4" by (simp add: table_inv_def)
  with assms(3) have "length (array_set (arrs h r) i v) = 4" by (simp add: array_set_def)
  with assms(1) show ?thesis by (simp add: table_inv_def table_ok_def)
qed

lemma table_inv_update:
  assumes "table_inv h (qTable a)"
  shows "table_inv (update a s c rew s' h) (qTable a)"
proof -
  let ?h1 = "snd (getQValues a s h)" and ?cur = "fst (getQValues a s h)"
  let ?h2 = "snd (getQValues a s' ?h1)"
  have "table_inv ?h2 (qTable a)"
    by (intro table_inv_getQValues assms)
  moreover have "objs ?h2 (qTable a) (getStateKey s) = Some ?cur"
    by (intro getQValues_keeps getQValues_binds)
  ultimately show ?thesis
    unfolding update_unfold Let_def by (rule table_inv_write) (rule action_index_less)
qed

lemma table_inv_resetQTable:
  "table_inv (snd (resetQTable a h)) (qTable (fst (resetQTable a h)))"
  by (simp add: resetQTable_def new_obj_def table_inv_def table_ok_def)

lemma table_inv_setQTable:
  "table_inv h t \<Longrightarrow> table_inv (snd (setQTable a t h)) (qTable (fst (setQTable a t h)))"
  by (simp add: setQTable_def new_obj_def table_inv_def table_ok_def)

lemma getQValues_lazy:
  assumes "table_ok h (qTable a)" "objs h (qTable a) (getStateKey p) = None"
  shows "arrs (snd (getQValues a p h)) (fst (getQValues a p h)) = [0, 0, 0, 0] \<and>
         table_of (snd (getQValues a p h)) (qTable a) =
           (table_of h (qTable a))(getStateKey p \<mapsto> [0, 0, 0, 0])"
proof -
  have "map_option ((arrs h)(narrs h := vs)) (objs h (qTable a) k) =
        map_option (arrs h) (objs h (qTable a) k)" for k vs
    using assms(1) by (cases "objs h (qTable a) k") (auto simp: table_ok_def)
  with assms show ?thesis
    by (auto simp: getQValues_def new_arr_def table_of_def fun_eq_iff Let_def)
qed

lemma caller_put_row_frame:
  assumes "table_ok h u" "u \<noteq> t"
  shows "table_of (caller_put_row t k vs h) u = table_of h u"
proof -
  have "map_option ((arrs h)(narrs h := vs)) (objs h u x) = map_option (arrs h) (objs h u x)" for x
    using assms(1) by (cases "objs h u x") (auto simp: table_ok_def)
  with assms(2) show ?thesis
    by (auto simp: caller_put_row_def new_arr_def table_of_def fun_eq_iff Let_def)
qed

lemma caller_delete_key_frame:
  assumes "u \<noteq> t"
  shows "table_of (caller_delete_key t k h) u = table_of h u"
  using assms by (auto simp: caller_delete_key_def table_of_def fun_eq_iff)

lemma caller_write_row_shared:
  assumes "objs h u = objs h t" "objs h t k = Some r"
  shows "\<exists>h'. caller_write_row t k i v h = Some h' \<and>
           table_of h' u k = Some (array_set (arrs h r) i v)"
  using assms by (auto simp: caller_write_row_def table_of_def)

lemma setQTable_effect:
  assumes "table_ok h t" "setQTable a t h = (a', h')"
  shows "qTable a' \<noteq> t"
    and "objs h' (qTable a') = objs h t"
    and "objs h' t = objs h t"
    and "table_of h' (qTable a') = table_of h t"
    and "table_ok h' (qTable a')"
    and "arrs h' = arrs h"
  using assms by (auto simp: setQTable_def new_obj_def table_ok_def table_of_def)

lemma test_heap_inv: "table_inv test_heap (qTable test_agent)"
  unfolding test_heap_def test_agent_def by (rule table_inv_new)

lemma test_table_empty: "objs test_heap (qTable test_agent) = Map.empty"
  by (simp add: test_heap_def test_agent_def QLearningAgent_new_def new_obj_def)

lemma test_table_none: "table_of test_heap (qTable test_agent) k = None"
  by (simp add: table_of_def test_table_empty)

lemma test_agent_fields:
  "alpha test_agent = 0.1" "gamma test_agent = 0.9" "epsilon test_agent = 0.1"
  "minEpsilon test_agent = 0.01" "decayRate test_agent = 0.995"
  by (simp_all add: test_agent_def QLearningAgent_new_def new_obj_def caller_heap_def
      caller_put_row_def new_arr_def empty_heap_def)

lemma key_0_0: "getStateKey \<lparr>pos_x = 0, pos_y = 0\<rparr> = ''0,0''"
  by code_simp

lemma key_1_0: "getStateKey \<lparr>pos_x = 1, pos_y = 0\<rparr> = ''1,0''"
  by code_simp

section \<open>The claims about the agent\<close>

text \<open>
  C10. For every choice of the three constructor arguments, the constructed agent has
  both \<open>epsilon\<close> and \<open>initialEpsilon\<close> equal to the third argument, \<open>minEpsilon\<close> 0.01,
  \<open>decayRate\<close> 0.995, and a Q-table that is a newly allocated object with no key.
\<close>

theorem constructor_initial_state:
  "epsilon (fst (QLearningAgent_new al ga ep h)) = ep \<and>
   initialEpsilon (fst (QLearningAgent_new al ga ep h)) = ep \<and>
   minEpsilon (fst (QLearningAgent_new al ga ep h)) = 0.01 \<and>
   decayRate (fst (QLearningAgent_new al ga ep h)) = 0.995 \<and>
   objs (snd (QLearningAgent_new al ga ep h)) (qTable (fst (QLearningAgent_new al ga ep h)))
     = Map.empty \<and>
   dom (table_of (snd (QLearningAgent_new al ga ep h))
          (qTable (fst (QLearningAgent_new al ga ep h)))) = {}"
  by (simp add: QLearningAgent_new_def new_obj_def table_of_def)

text \<open>
  C3. With the table invariant, \<^verbatim>\<open>update(state, action, reward, nextState)\<close> leaves
  for \<open>state\<close>'s key the row it had before (zeros when the key was absent) with the
  one entry at index \<open>action\<close> replaced by
  \<open>oldQ + alpha * (reward + gamma * maxQ(nextState) - oldQ)\<close>, where \<open>oldQ\<close> is that
  entry before the call and \<open>maxQ(nextState)\<close> the maximum of \<open>nextState\<close>'s row before
  the call (zeros when absent); the other three entries are as before.
\<close>

theorem update_writes_bellman_value:
  assumes "table_inv h (qTable a)"
  shows "table_of (update a s c rew s' h) (qTable a) (getStateKey s) =
    Some ((row_or_zeros (table_of h (qTable a) (getStateKey s)))
       [action_index c :=
          row_or_zeros (table_of h (qTable a) (getStateKey s)) ! action_index c +
          alpha a *
            (rew + gamma a * Math_max (row_or_zeros (table_of h (qTable a) (getStateKey s')))
              - row_or_zeros (table_of h (qTable a) (getStateKey s)) ! action_index c)])"
  using assms action_index_less [of c]
  by (auto simp: update_def getMaxQ_def getQValues_def new_arr_def table_of_def table_inv_def
      table_ok_def array_set_def Let_def row_or_zeros_def
      simp del: list_update.simps split: option.splits)

theorem update_writes_bellman_value_witness:
  "table_inv test_heap (qTable test_agent) \<and>
   table_of (update test_agent \<lparr>pos_x = 0, pos_y = 0\<rparr> RIGHT 10 \<lparr>pos_x = 1, pos_y = 0\<rparr> test_heap)
     (qTable test_agent) (getStateKey \<lparr>pos_x = 0, pos_y = 0\<rparr>) = Some [0, 1, 0, 0]"
  using update_writes_bellman_value [OF test_heap_inv,
      of "\<lparr>pos_x = 0, pos_y = 0\<rparr>" RIGHT 10 "\<lparr>pos_x = 1, pos_y = 0\<rparr>"]
  by (simp add: test_heap_inv test_table_none row_or_zeros_def test_agent_fields)

text \<open>
  C8. When \<open>nextState\<close>'s key is absent from the table and differs from \<open>state\<close>'s
  key, the table after \<^verbatim>\<open>update\<close> holds the row \<open>[0, 0, 0, 0]\<close> for \<open>nextState\<close>'s key;
  the keys after the call are the keys before it together with both \<open>state\<close>'s and
  \<open>nextState\<close>'s key, so one call can add two entries.
\<close>

theorem update_inserts_next_state_row:
  assumes "table_ok h (qTable a)"
    and "objs h (qTable a) (getStateKey s') = None"
    and "getStateKey s' \<noteq> getStateKey s"
  shows "table_of (update a s c rew s' h) (qTable a) (getStateKey s') = Some [0, 0, 0, 0] \<and>
         dom (table_of (update a s c rew s' h) (qTable a)) =
           dom (table_of h (qTable a)) \<union> {getStateKey s, getStateKey s'}"
proof -
  have "table_of (update a s c rew s' h) (qTable a) (getStateKey s') = Some [0, 0, 0, 0]"
    using assms
    by (auto simp: update_def getMaxQ_def getQValues_def new_arr_def table_of_def
        table_ok_def Let_def split: option.splits)
  moreover have "dom (objs (update a s c rew s' h) (qTable a)) =
         dom (objs h (qTable a)) \<union> {getStateKey s, getStateKey s'}"
    by (auto simp: update_def getMaxQ_def getQValues_def new_arr_def
         Let_def split: option.splits if_splits)
  then have "dom (table_of (update a s c rew s' h) (qTable a)) =
           dom (table_of h (qTable a)) \<union> {getStateKey s, getStateKey s'}"
    by (simp add: table_of_def dom_def)
  ultimately show ?thesis by simp
qed

theorem update_inserts_next_state_row_witness:
  "table_ok test_heap (qTable test_agent) \<and>
   objs test_heap (qTable test_agent) (getStateKey \<lparr>pos_x = 1, pos_y = 0\<rparr>) = None \<and>
   getStateKey \<lparr>pos_x = 1, pos_y = 0\<rparr> \<noteq> getStateKey \<lparr>pos_x = 0, pos_y = 0\<rparr> \<and>
   table_of (update test_agent \<lparr>pos_x = 0, pos_y = 0\<rparr> RIGHT 10 \<lparr>pos_x = 1, pos_y = 0\<rparr> test_heap)
     (qTable test_agent) ''1,0'' = Some [0, 0, 0, 0] \<and>
   dom (table_of (update test_agent \<lparr>pos_x = 0, pos_y = 0\<rparr> RIGHT 10 \<lparr>pos_x = 1, pos_y = 0\<rparr>
          test_heap) (qTable test_agent)) = {''0,0'', ''1,0''}"
proof -
  have ok: "table_ok test_heap (qTable test_agent)"
    using test_heap_inv by (simp add: table_inv_def)
  have absent: "objs test_heap (qTable test_agent) (getStateKey \<lparr>pos_x = 1, pos_y = 0\<rparr>) = None"
    by (simp add: test_table_empty)
  have differ: "getStateKey \<lparr>pos_x = 1, pos_y = 0\<rparr> \<noteq> getStateKey \<lparr>pos_x = 0, pos_y = 0\<rparr>"
    by (simp add: key_0_0 key_1_0)
  from update_inserts_next_state_row [OF ok absent differ, of RIGHT 10] ok absent differ
  show ?thesis
    by (simp add: key_0_0 key_1_0 test_table_none dom_def)
qed

section \<open>Epsilon decay\<close>

lemma decay_iter_fields:
  "minEpsilon ((decayCuriosity ^^ n) a) = minEpsilon a \<and>
   decayRate ((decayCuriosity ^^ n) a) = decayRate a"
  by (induction n) (simp_all add: decayCuriosity_def)

lemma decay_floor: "minEpsilon a \<le> epsilon (decayCuriosity a)"
  by (simp add: decayCuriosity_def)

lemma decay_step_le:
  assumes "decayRate a < 1" "0 \<le> epsilon a" "minEpsilon a \<le> epsilon a"
  shows "epsilon (decayCuriosity a) \<le> epsilon a"
proof -
  have "epsilon a * decayRate a \<le> epsilon a * 1"
    using assms by (intro mult_left_mono) simp_all
  with assms show ?thesis by (simp add: decayCuriosity_def)
qed

lemma decay_step_nonneg:
  assumes "0 < decayRate a" "0 \<le> epsilon a"
  shows "0 \<le> epsilon (decayCuriosity a)"
proof -
  have "0 \<le> epsilon a * decayRate a" using assms by simp
  then show ?thesis by (simp add: decayCuriosity_def le_max_iff_disj)
qed

lemma decay_iter_inv:
  assumes "0 < decayRate a" "0 \<le> epsilon a" "minEpsilon a \<le> epsilon a"
  shows "0 \<le> epsilon ((decayCuriosity ^^ n) a) \<and> minEpsilon a \<le> epsilon ((decayCuriosity ^^ n) a)"
proof (induction n)
  case 0
  with assms show ?case by simp
next
  case (Suc n)
  let ?b = "(decayCuriosity ^^ n) a"
  have "0 < decayRate ?b" using assms decay_iter_fields [of n a] by simp
  with Suc have "0 \<le> epsilon (decayCuriosity ?b)" by (intro decay_step_nonneg) simp_all
  moreover have "minEpsilon a \<le> epsilon (decayCuriosity ?b)"
    using decay_floor [of ?b] decay_iter_fields [of n a] by simp
  ultimately show ?case by simp
qed

lemma decay_at_floor:
  assumes "decayRate a < 1" "0 \<le> epsilon a" "epsilon a = minEpsilon a"
  shows "epsilon (decayCuriosity a) = minEpsilon a"
proof -
  have "epsilon a * decayRate a \<le> epsilon a * 1"
    using assms by (intro mult_left_mono) simp_all
  with assms show ?thesis by (simp add: decayCuriosity_def)
qed

lemma decay_iter_at_floor:
  assumes "0 < decayRate a" "decayRate a < 1" "0 \<le> epsilon a" "epsilon a = minEpsilon a"
  shows "epsilon ((decayCuriosity ^^ m) a) = minEpsilon a"
proof (induction m)
  case 0
  with assms show ?case by simp
next
  case (Suc m)
  let ?b = "(decayCuriosity ^^ m) a"
  have "decayRate ?b < 1" "minEpsilon ?b = minEpsilon a"
    using assms decay_iter_fields [of m a] by simp_all
  moreover have "0 \<le> epsilon ?b"
    using decay_iter_inv [of a m] assms by simp
  ultimately show ?case using Suc decay_at_floor [of ?b] by simp
qed

text \<open>
  C6, as the claim states it, fails: an agent constructed with an epsilon below the
  floor (\<^verbatim>\<open>new QLearningAgent(0.1, 0.9, 0.005)\<close>, with the default \<open>decayRate\<close> 0.995
  and \<open>minEpsilon\<close> 0.01) has its epsilon raised to 0.01 by the first call.
\<close>

theorem decay_increases_epsilon_below_floor:
  "0 < decayRate (fst (QLearningAgent_new 0.1 0.9 0.005 empty_heap)) \<and>
   decayRate (fst (QLearningAgent_new 0.1 0.9 0.005 empty_heap)) < 1 \<and>
   epsilon (fst (QLearningAgent_new 0.1 0.9 0.005 empty_heap)) = 0.005 \<and>
   epsilon (decayCuriosity (fst (QLearningAgent_new 0.1 0.9 0.005 empty_heap))) = 0.01 \<and>
   \<not> epsilon (decayCuriosity (fst (QLearningAgent_new 0.1 0.9 0.005 empty_heap)))
       \<le> epsilon (fst (QLearningAgent_new 0.1 0.9 0.005 empty_heap))"
  by (simp add: QLearningAgent_new_def new_obj_def decayCuriosity_def)

text \<open>
  C6, amended. \<^verbatim>\<open>decayCuriosity()\<close> sets epsilon to
  \<open>max minEpsilon (epsilon * decayRate)\<close>. For an agent with \<open>0 < decayRate < 1\<close> whose
  epsilon is at least 0 and at least \<open>minEpsilon\<close>, epsilon never increases under
  repeated calls, never goes below \<open>minEpsilon\<close>, and once it equals \<open>minEpsilon\<close> every
  further call leaves it there.
\<close>

theorem decayCuriosity_monotone_with_floor:
  assumes "0 < decayRate a" "decayRate a < 1" "0 \<le> epsilon a" "minEpsilon a \<le> epsilon a"
  shows "epsilon (decayCuriosity a) = max (minEpsilon a) (epsilon a * decayRate a) \<and>
    (\<forall>n. epsilon ((decayCuriosity ^^ Suc n) a) \<le> epsilon ((decayCuriosity ^^ n) a) \<and>
         minEpsilon a \<le> epsilon ((decayCuriosity ^^ n) a) \<and>
         (epsilon ((decayCuriosity ^^ n) a) = minEpsilon a \<longrightarrow>
            (\<forall>m. epsilon ((decayCuriosity ^^ (n + m)) a) = minEpsilon a)))"
proof (intro conjI allI impI)
  show "epsilon (decayCuriosity a) = max (minEpsilon a) (epsilon a * decayRate a)"
    by (simp add: decayCuriosity_def)
next
  fix n
  let ?b = "(decayCuriosity ^^ n) a"
  have f: "decayRate ?b = decayRate a" "minEpsilon ?b = minEpsilon a"
    using decay_iter_fields [of n a] by simp_all
  have i: "0 \<le> epsilon ?b" "minEpsilon a \<le> epsilon ?b"
    using decay_iter_inv [of a n] assms by simp_all
  show "epsilon ((decayCuriosity ^^ Suc n) a) \<le> epsilon ?b"
    using decay_step_le [of ?b] f i assms by simp
  show "minEpsilon a \<le> epsilon ?b" by (rule i)
  show "epsilon ((decayCuriosity ^^ (n + m)) a) = minEpsilon a"
    if "epsilon ?b = minEpsilon a" for m
  proof -
    have "(decayCuriosity ^^ (n + m)) a = (decayCuriosity ^^ m) ?b"
      by (simp add: add.commute funpow_add)
    then show ?thesis
      using decay_iter_at_floor [of ?b m] f i that assms by simp
  qed
qed

theorem decayCuriosity_monotone_with_floor_witness:
  "0 < decayRate (test_agent\<lparr>epsilon := 0.02, decayRate := 0.5\<rparr>) \<and>
   decayRate (test_agent\<lparr>epsilon := 0.02, decayRate := 0.5\<rparr>) < 1 \<and>
   0 \<le> epsilon (test_agent\<lparr>epsilon := 0.02, decayRate := 0.5\<rparr>) \<and>
   minEpsilon (test_agent\<lparr>epsilon := 0.02, decayRate := 0.5\<rparr>)
     \<le> epsilon (test_agent\<lparr>epsilon := 0.02, decayRate := 0.5\<rparr>) \<and>
   epsilon (decayCuriosity (test_agent\<lparr>epsilon := 0.02, decayRate := 0.5\<rparr>)) = 0.01 \<and>
   epsilon ((decayCuriosity ^^ 3) (test_agent\<lparr>epsilon := 0.02, decayRate := 0.5\<rparr>)) = 0.01"
proof -
  let ?a = "test_agent\<lparr>epsilon := 0.02, decayRate := 0.5\<rparr>"
  have hyps: "0 < decayRate ?a" "decayRate ?a < 1" "0 \<le> epsilon ?a" "minEpsilon ?a \<le> epsilon ?a"
    by (simp_all add: test_agent_fields)
  note inst = decayCuriosity_monotone_with_floor [OF hyps]
  from inst have first: "epsilon (decayCuriosity ?a) = 0.01"
    by (simp add: test_agent_fields)
  from inst have "epsilon ((decayCuriosity ^^ 1) ?a) = minEpsilon ?a \<longrightarrow>
      epsilon ((decayCuriosity ^^ (1 + 2)) ?a) = minEpsilon ?a"
    by blast
  with first have "epsilon ((decayCuriosity ^^ 3) ?a) = 0.01"
    by (simp add: test_agent_fields eval_nat_numeral)
  with hyps first show ?thesis by (simp add: eval_nat_numeral)
qed

text \<open>
  C7. The table the constructor allocates is empty and satisfies the invariant (every
  key present has a row of exactly 4 values); \<^verbatim>\<open>getQValues\<close>, \<^verbatim>\<open>getMaxQ\<close>,
  \<^verbatim>\<open>chooseAction\<close>, \<^verbatim>\<open>update\<close>, \<^verbatim>\<open>decayCuriosity\<close> and \<^verbatim>\<open>resetQTable\<close> preserve the
  invariant, and so does \<^verbatim>\<open>setQTable\<close> for a table that satisfies it. A key that is
  absent is initialised on its first access: \<^verbatim>\<open>getQValues\<close> returns the row
  \<open>[0, 0, 0, 0]\<close> and the table afterwards is the table before with that row at that
  key and nothing else changed.
\<close>

theorem qtable_invariant_preserved:
  "table_inv (snd (QLearningAgent_new al ga ep h0)) (qTable (fst (QLearningAgent_new al ga ep h0))) \<and>
   table_of (snd (QLearningAgent_new al ga ep h0)) (qTable (fst (QLearningAgent_new al ga ep h0)))
     = Map.empty \<and>
   (table_inv h (qTable a) \<longrightarrow>
      table_inv (snd (getQValues a p h)) (qTable a) \<and>
      table_inv (snd (getMaxQ a p h)) (qTable a) \<and>
      table_inv (snd (chooseAction r1 r2 a p h)) (qTable a) \<and>
      table_inv (update a s c rew s' h) (qTable a) \<and>
      table_inv h (qTable (decayCuriosity a)) \<and>
      table_inv (snd (resetQTable a h)) (qTable (fst (resetQTable a h))) \<and>
      (objs h (qTable a) (getStateKey p) = None \<longrightarrow>
         arrs (snd (getQValues a p h)) (fst (getQValues a p h)) = [0, 0, 0, 0] \<and>
         table_of (snd (getQValues a p h)) (qTable a) =
           (table_of h (qTable a))(getStateKey p \<mapsto> [0, 0, 0, 0]))) \<and>
   (table_inv h t \<longrightarrow> table_inv (snd (setQTable a t h)) (qTable (fst (setQTable a t h))))"
proof (intro conjI impI)
  assume inv: "table_inv h (qTable a)"
  show "table_inv (snd (getQValues a p h)) (qTable a)"
    using inv by (rule table_inv_getQValues)
  show "table_inv (snd (getMaxQ a p h)) (qTable a)"
    using inv by (rule table_inv_getMaxQ)
  show "table_inv (snd (chooseAction r1 r2 a p h)) (qTable a)"
    using inv by (rule table_inv_chooseAction)
  show "table_inv (update a s c rew s' h) (qTable a)"
    using inv by (rule table_inv_update)
  show "table_inv h (qTable (decayCuriosity a))"
    using inv by (simp add: decayCuriosity_def)
  show "table_inv (snd (resetQTable a h)) (qTable (fst (resetQTable a h)))"
    by (rule table_inv_resetQTable)
  assume absent: "objs h (qTable a) (getStateKey p) = None"
  from inv have ok: "table_ok h (qTable a)" by (simp add: table_inv_def)
  from getQValues_lazy [OF ok absent]
  show "arrs (snd (getQValues a p h)) (fst (getQValues a p h)) = [0, 0, 0, 0]"
    and "table_of (snd (getQValues a p h)) (qTable a) =
           (table_of h (qTable a))(getStateKey p \<mapsto> [0, 0, 0, 0])"
    by simp_all
qed (simp_all add: table_inv_new table_of_new table_inv_setQTable)

theorem qtable_invariant_preserved_witness:
  "table_inv test_heap (qTable test_agent) \<and>
   objs test_heap (qTable test_agent) (getStateKey \<lparr>pos_x = 0, pos_y = 0\<rparr>) = None \<and>
   table_inv caller_heap 0 \<and>
   table_inv (update test_agent \<lparr>pos_x = 0, pos_y = 0\<rparr> RIGHT 10 \<lparr>pos_x = 1, pos_y = 0\<rparr> test_heap)
     (qTable test_agent) \<and>
   table_of (snd (getQValues test_agent \<lparr>pos_x = 0, pos_y = 0\<rparr> test_heap)) (qTable test_agent)
     = [''0,0'' \<mapsto> [0, 0, 0, 0]] \<and>
   table_inv (snd (setQTable test_agent 0 caller_heap))
     (qTable (fst (setQTable test_agent 0 caller_heap)))"
proof -
  have absent: "objs test_heap (qTable test_agent) (getStateKey \<lparr>pos_x = 0, pos_y = 0\<rparr>) = None"
    by (simp add: test_table_empty)
  have caller: "table_inv caller_heap 0"
    by (simp add: caller_heap_def caller_put_row_def new_arr_def new_obj_def empty_heap_def
        table_inv_def table_ok_def)
  have empty: "table_of test_heap (qTable test_agent) = Map.empty"
    by (simp add: fun_eq_iff test_table_none)
  note inst1 = qtable_invariant_preserved [where h = test_heap and a = test_agent
      and p = "\<lparr>pos_x = 0, pos_y = 0\<rparr>" and s = "\<lparr>pos_x = 0, pos_y = 0\<rparr>" and c = RIGHT
      and rew = 10 and s' = "\<lparr>pos_x = 1, pos_y = 0\<rparr>"]
  note inst2 = qtable_invariant_preserved [where h = caller_heap and t = 0 and a = test_agent]
  from inst1 test_heap_inv absent
  have "table_inv (update test_agent \<lparr>pos_x = 0, pos_y = 0\<rparr> RIGHT 10 \<lparr>pos_x = 1, pos_y = 0\<rparr> test_heap)
     (qTable test_agent)"
    and "table_of (snd (getQValues test_agent \<lparr>pos_x = 0, pos_y = 0\<rparr> test_heap)) (qTable test_agent)
      = [''0,0'' \<mapsto> [0, 0, 0, 0]]"
    by (simp_all add: empty key_0_0)
  moreover from inst2 caller
  have "table_inv (snd (setQTable test_agent 0 caller_heap))
     (qTable (fst (setQTable test_agent 0 caller_heap)))"
    by simp
  ultimately show ?thesis
    using test_heap_inv absent caller by simp
qed

text \<open>
  C1, as the claim states it, fails: \<^verbatim>\<open>setQTable\<close> copies the keys, not the rows.
  The caller holds \<^verbatim>\<open>{ "1,1": [1, 2, 3, 4] }\<close>, passes it to \<^verbatim>\<open>setQTable\<close> and
  then writes 99 into element 0 of its row: the agent's table, which held
  \<open>[1, 2, 3, 4]\<close> for that key, now holds \<open>[99, 2, 3, 4]\<close>.
\<close>

theorem setQTable_rows_are_shared:
  "table_of (snd (setQTable test_agent 0 test_heap)) (qTable (fst (setQTable test_agent 0 test_heap)))
     ''1,1'' = Some [1, 2, 3, 4] \<and>
   caller_write_row 0 ''1,1'' 0 99 (snd (setQTable test_agent 0 test_heap)) \<noteq> None \<and>
   table_of (the (caller_write_row 0 ''1,1'' 0 99 (snd (setQTable test_agent 0 test_heap))))
     (qTable (fst (setQTable test_agent 0 test_heap))) ''1,1'' = Some [99, 2, 3, 4]"
  by (simp add: setQTable_def test_heap_def test_agent_def QLearningAgent_new_def caller_heap_def
      caller_put_row_def caller_write_row_def new_obj_def new_arr_def empty_heap_def table_of_def
      array_set_def)

text \<open>
  C1, amended. \<^verbatim>\<open>setQTable(table)\<close> replaces the agent's table by a new object that
  binds the keys of \<open>table\<close> to the same row arrays (a copy one level deep). When the
  caller afterwards adds or replaces a key of its object, or deletes one, the agent's
  table is unchanged. The rows stay shared: a write of the caller into a row of
  \<open>table\<close> shows in the agent's table.
\<close>

theorem setQTable_copies_keys_only:
  assumes "table_ok h t" and "setQTable a t h = (a', h')"
  shows "qTable a' \<noteq> t \<and>
         objs h' (qTable a') = objs h t \<and>
         table_of h' (qTable a') = table_of h t \<and>
         table_of (caller_put_row t k vs h') (qTable a') = table_of h' (qTable a') \<and>
         table_of (caller_delete_key t k h') (qTable a') = table_of h' (qTable a') \<and>
         (objs h t k = Some r \<longrightarrow>
            (\<exists>h''. caller_write_row t k i v h' = Some h'' \<and>
                   table_of h'' (qTable a') k = Some (array_set (arrs h r) i v)))"
proof -
  note e = setQTable_effect [OF assms]
  have "table_of (caller_put_row t k vs h') (qTable a') = table_of h' (qTable a')"
    using e(5) e(1) by (rule caller_put_row_frame)
  moreover have "table_of (caller_delete_key t k h') (qTable a') = table_of h' (qTable a')"
    using e(1) by (rule caller_delete_key_frame)
  moreover have "\<exists>h''. caller_write_row t k i v h' = Some h'' \<and>
                   table_of h'' (qTable a') k = Some (array_set (arrs h r) i v)"
    if "objs h t k = Some r"
    using caller_write_row_shared [of h' "qTable a'" t k r i v] e(2,3,6) that by simp
  ultimately show ?thesis using e(1,2,4) by simp
qed

theorem setQTable_copies_keys_only_witness:
  "table_ok test_heap 0 \<and>
   qTable (fst (setQTable test_agent 0 test_heap)) \<noteq> 0 \<and>
   table_of (snd (setQTable test_agent 0 test_heap)) (qTable (fst (setQTable test_agent 0 test_heap)))
     = table_of test_heap 0 \<and>
   table_of (caller_put_row 0 ''2,2'' [5, 6, 7, 8] (snd (setQTable test_agent 0 test_heap)))
       (qTable (fst (setQTable test_agent 0 test_heap))) ''2,2'' = None \<and>
   objs test_heap 0 ''1,1'' = Some 0"
proof -
  have ok: "table_ok test_heap 0"
    by (simp add: test_heap_def QLearningAgent_new_def caller_heap_def caller_put_row_def
        new_obj_def new_arr_def empty_heap_def table_ok_def)
  have row: "objs test_heap 0 ''1,1'' = Some 0"
    by (simp add: test_heap_def QLearningAgent_new_def caller_heap_def caller_put_row_def
        new_obj_def new_arr_def empty_heap_def)
  have none: "table_of test_heap 0 ''2,2'' = None"
    by (simp add: test_heap_def QLearningAgent_new_def caller_heap_def caller_put_row_def
        new_obj_def new_arr_def empty_heap_def table_of_def)
  have pair: "setQTable test_agent 0 test_heap =
      (fst (setQTable test_agent 0 test_heap), snd (setQTable test_agent 0 test_heap))"
    by simp
  from setQTable_copies_keys_only [OF ok pair, of "''2,2''" "[5, 6, 7, 8]"] ok row none
  show ?thesis by simp
qed

section \<open>Facts about grids and the carving loop\<close>


lemma init_grid_dims: "grid_dims (init_grid w h) w h"
  by (simp add: grid_dims_def init_grid_def comp_def map_replicate_const)

lemma clear_wall_lengths:
  assumes "clear_wall gr j i = Some gr'"
  shows "map length gr' = map length gr"
proof -
  from assms obtain row c where j: "0 \<le> j" "nat j < length gr" and row: "row = gr ! nat j"
    and gr': "gr' = gr[nat j := row[nat i := c\<lparr>isWall := False\<rparr>]]"
    by (auto simp: clear_wall_def array_get_def split: if_splits)
  show ?thesis
    unfolding gr' by (simp add: map_update row list_update_same_conv j)
qed

lemma clear_wall_dims:
  "clear_wall gr j i = Some gr' \<Longrightarrow> grid_dims gr' w h = grid_dims gr w h"
  by (simp add: grid_dims_def clear_wall_lengths)

lemma grid_dims_row:
  assumes "grid_dims gr w h" "0 \<le> j" "j < h"
  shows "nat j < length gr \<and> length (gr ! nat j) = nat w"
proof -
  from assms(1) have l: "length gr = nat h"
    by (metis grid_dims_def length_map length_replicate)
  with assms have n: "nat j < length gr" by simp
  from assms(1) have "map length gr ! nat j = replicate (nat h) (nat w) ! nat j"
    by (simp add: grid_dims_def)
  with n l show ?thesis by simp
qed

lemma clear_wall_ok:
  assumes "grid_dims gr w h" "0 \<le> j" "j < h" "0 \<le> i" "i < w"
  shows "\<exists>gr'. clear_wall gr j i = Some gr'"
proof -
  from grid_dims_row [OF assms(1-3)] assms have "j < int (length gr)" "i < int (length (gr ! nat j))"
    by linarith+
  with assms show ?thesis by (simp add: clear_wall_def array_get_def)
qed

lemma clear_wall_opens:
  assumes "clear_wall gr j i = Some gr'"
  shows "is_open gr' j i"
  using assms
  by (auto simp: clear_wall_def is_open_def array_get_def split: if_splits)

lemma clear_wall_keeps_open:
  assumes "clear_wall gr j i = Some gr'" "is_open gr b a"
  shows "is_open gr' b a"
  using assms
  by (auto simp: clear_wall_def is_open_def array_get_def nth_list_update split: if_splits)

lemma clear_walls_dims:
  "clear_walls gr ps = Some gr' \<Longrightarrow> grid_dims gr' w h = grid_dims gr w h"
  by (induction gr ps rule: clear_walls.induct) (auto split: option.splits simp: clear_wall_dims)

lemma clear_walls_ok:
  assumes "grid_dims gr w h" "\<forall>(j, i) \<in> set ps. 0 \<le> j \<and> j < h \<and> 0 \<le> i \<and> i < w"
  shows "\<exists>gr'. clear_walls gr ps = Some gr'"
  using assms
proof (induction gr ps rule: clear_walls.induct)
  case (1 gr)
  then show ?case by simp
next
  case (2 gr j i ps)
  then obtain gr1 where s: "clear_wall gr j i = Some gr1"
    using clear_wall_ok [of gr w h j i] by auto
  with 2 have "grid_dims gr1 w h" by (simp add: clear_wall_dims)
  with 2 s show ?case by simp
qed

lemma clear_walls_keeps_open:
  "clear_walls gr ps = Some gr' \<Longrightarrow> is_open gr b a \<Longrightarrow> is_open gr' b a"
  by (induction gr ps rule: clear_walls.induct)
     (auto split: option.splits dest: clear_wall_keeps_open)

lemma clear_walls_opens:
  "clear_walls gr ps = Some gr' \<Longrightarrow> (j, i) \<in> set ps \<Longrightarrow> is_open gr' j i"
proof (induction gr ps rule: clear_walls.induct)
  case (1 gr)
  then show ?case by simp
next
  case (2 gr j' i' ps)
  then obtain gr1 where s: "clear_wall gr j' i' = Some gr1" and r: "clear_walls gr1 ps = Some gr'"
    by (auto split: option.splits)
  show ?case
  proof (cases "(j, i) = (j', i')")
    case True
    with s have "is_open gr1 j i" by (auto dest: clear_wall_opens)
    with r show ?thesis by (rule clear_walls_keeps_open)
  next
    case False
    with 2 s r show ?thesis by auto
  qed
qed


lemma next_seed_range:
  assumes "0 \<le> s"
  shows "0 \<le> snd (SeededRandom_next s) \<and> snd (SeededRandom_next s) < 233280"
proof -
  have "0 \<le> s * 9301 + 49297" using assms by simp
  then have "(s * 9301 + 49297) smod 233280 = (s * 9301 + 49297) mod 233280"
    by (simp add: signed_modulo_int_def sgn_if)
  then show ?thesis by (simp add: SeededRandom_next_def Let_def)
qed

lemma next_value_range:
  assumes "0 \<le> s"
  shows "0 \<le> fst (SeededRandom_next s) \<and> fst (SeededRandom_next s) < 1"
proof -
  have "fst (SeededRandom_next s) = real_of_int (snd (SeededRandom_next s)) / 233280"
    by (simp add: SeededRandom_next_def Let_def)
  with next_seed_range [OF assms] show ?thesis by simp
qed

lemma floor_index_range:
  assumes "0 \<le> r" "r < 1" "0 < n"
  shows "0 \<le> \<lfloor>r * real n\<rfloor> \<and> \<lfloor>r * real n\<rfloor> < int n"
proof -
  have "0 \<le> r * real n" using assms by simp
  moreover have "r * real n < 1 * real n"
    using assms by (intro mult_strict_right_mono) simp_all
  ultimately show ?thesis by (simp add: floor_less_iff)
qed

lemma pick_neighbor_ok:
  assumes "0 \<le> rng g" "ns \<noteq> []"
  shows "\<exists>n. pick_neighbor g ns = (Some n, g\<lparr>rng := snd (SeededRandom_next (rng g))\<rparr>) \<and> n \<in> set ns"
proof -
  define k where "k = \<lfloor>fst (SeededRandom_next (rng g)) * real (length ns)\<rfloor>"
  from assms next_value_range [of "rng g"] have "0 \<le> k \<and> k < int (length ns)"
    unfolding k_def by (intro floor_index_range) simp_all
  then have "array_get ns k = Some (ns ! nat k)" "nat k < length ns"
    by (simp add: array_get_def, linarith)
  then show ?thesis
    by (simp add: pick_neighbor_def split_beta k_def)
qed

lemma neighbor_shape:
  assumes "n \<in> set (getUnvisitedNeighbors g c v)"
  shows "(pos_x n = pos_x c \<and> (pos_y n = pos_y c - 2 \<or> pos_y n = pos_y c + 2)) \<or>
         (pos_y n = pos_y c \<and> (pos_x n = pos_x c - 2 \<or> pos_x n = pos_x c + 2))"
proof -
  from assms have "n \<in> set (map (\<lambda>dir. \<lparr>pos_x = pos_x c + pos_x dir, pos_y = pos_y c + pos_y dir\<rparr>)
      directions)"
    by (simp add: getUnvisitedNeighbors_def)
  then show ?thesis by (auto simp: directions_def)
qed

lemma neighbor_interior:
  assumes "n \<in> set (getUnvisitedNeighbors g c v)"
  shows "0 < pos_x n \<and> pos_x n < width g - 1 \<and> 0 < pos_y n \<and> pos_y n < height g - 1 \<and>
         getStateKey n \<notin> v"
  using assms by (auto simp: getUnvisitedNeighbors_def)

lemma midpoint_between:
  assumes "b = a \<or> b = a - 2 \<or> b = a + 2" "0 \<le> a" "a < m" "0 \<le> b" "b < m"
  shows "\<exists>k. midpoint a b = Some k \<and> 0 \<le> k \<and> k < m"
  using assms by (auto simp: midpoint_def)

lemma carve_to_ok:
  assumes dims: "grid_dims gr (width g) (height g)"
    and seed: "0 \<le> rng g"
    and cur: "in_grid g c"
    and ns: "getUnvisitedNeighbors g c v \<noteq> []"
  shows "\<exists>n gr'. carve_to g gr c (getUnvisitedNeighbors g c v) =
             (g\<lparr>rng := snd (SeededRandom_next (rng g))\<rparr>, Some (n, gr')) \<and>
           n \<in> set (getUnvisitedNeighbors g c v) \<and>
           grid_dims gr' (width g) (height g) \<and> in_grid g n"
proof -
  let ?ns = "getUnvisitedNeighbors g c v"
  from pick_neighbor_ok [OF seed ns] obtain n
    where pick: "pick_neighbor g ?ns = (Some n, g\<lparr>rng := snd (SeededRandom_next (rng g))\<rparr>)"
      and mem: "n \<in> set ?ns" by blast
  note sh = neighbor_shape [OF mem] and int = neighbor_interior [OF mem]
  from int have n_in: "in_grid g n" by (simp add: in_grid_def)
  from sh cur n_in obtain wy where wy: "midpoint (pos_y c) (pos_y n) = Some wy" "0 \<le> wy" "wy < height g"
    using midpoint_between [of "pos_y n" "pos_y c" "height g"] by (auto simp: in_grid_def)
  from sh cur n_in obtain wx where wx: "midpoint (pos_x c) (pos_x n) = Some wx" "0 \<le> wx" "wx < width g"
    using midpoint_between [of "pos_x n" "pos_x c" "width g"] by (auto simp: in_grid_def)
  from clear_walls_ok [OF dims, of "[(wy, wx), (pos_y n, pos_x n)]"] wy wx n_in
  obtain gr' where cl: "clear_walls gr [(wy, wx), (pos_y n, pos_x n)] = Some gr'"
    by (auto simp: in_grid_def)
  from cl dims have "grid_dims gr' (width g) (height g)"
    by (simp only: clear_walls_dims)
  with pick mem wy wx cl n_in show ?thesis
    by (simp add: carve_to_def)
qed


declare carve.simps [simp del]

lemma carve_empty: "carve g gr [] visited = (g, Some gr)"
  by (subst carve.simps) simp

lemma carve_pop:
  assumes "stack \<noteq> []" "getUnvisitedNeighbors g (last stack) visited = []"
  shows "carve g gr stack visited = carve g gr (butlast stack) visited"
  using assms by (subst carve.simps) simp

lemma carve_push:
  assumes "stack \<noteq> []" "getUnvisitedNeighbors g (last stack) visited \<noteq> []"
  shows "carve g gr stack visited =
     (case carve_to g gr (last stack) (getUnvisitedNeighbors g (last stack) visited) of
        (g', None) \<Rightarrow> (g', None)
      | (g', Some (nxt, gr')) \<Rightarrow>
          carve g' gr' (stack @ [nxt]) (insert (getStateKey nxt) visited))"
  using assms by (subst carve.simps) (simp add: Let_def)

lemma carve_ok:
  assumes "grid_dims gr (width g) (height g)" "0 \<le> rng g" "\<forall>p\<in>set stack. in_grid g p"
  shows "\<exists>g' gr'. carve g gr stack visited = (g', Some gr') \<and>
           grid_dims gr' (width g) (height g) \<and> width g' = width g \<and> height g' = height g"
  using assms
proof (induction g gr stack visited rule: carve.induct)
  case (1 g gr stack visited)
  let ?c = "last stack"
  let ?ns = "getUnvisitedNeighbors g ?c visited"
  show ?case
  proof (cases "stack = []")
    case True
    with "1.prems" show ?thesis by (simp add: carve_empty)
  next
    case False
    then have c_in: "in_grid g ?c" using "1.prems" by simp
    show ?thesis
    proof (cases "?ns = []")
      case True
      from "1.prems" have "\<forall>p\<in>set (butlast stack). in_grid g p"
        by (auto dest: in_set_butlastD)
      with "1.IH"(2) [OF _ refl refl] False True "1.prems"
      have "\<exists>g' gr'. carve g gr (butlast stack) visited = (g', Some gr') \<and>
           grid_dims gr' (width g) (height g) \<and> width g' = width g \<and> height g' = height g"
        by simp
      with False True show ?thesis by (simp add: carve_pop)
    next
      case ns: False
      let ?g' = "g\<lparr>rng := snd (SeededRandom_next (rng g))\<rparr>"
      from carve_to_ok [OF "1.prems"(1,2) c_in ns] obtain n gr1
        where ct: "carve_to g gr ?c ?ns = (?g', Some (n, gr1))"
          and d1: "grid_dims gr1 (width g) (height g)" and n_in: "in_grid g n"
        by blast
      have seed': "0 \<le> rng ?g'" using next_seed_range [OF "1.prems"(2)] by simp
      have st: "\<forall>p\<in>set (stack @ [n]). in_grid ?g' p"
        using "1.prems"(3) n_in by (auto simp: in_grid_def)
      have "\<exists>g' gr'. carve ?g' gr1 (stack @ [n]) (insert (getStateKey n) visited) = (g', Some gr') \<and>
           grid_dims gr' (width ?g') (height ?g') \<and> width g' = width ?g' \<and> height g' = height ?g'"
        using False ns d1 seed' st
        by (intro "1.IH"(1) [OF _ refl refl _ ct [symmetric] refl refl]) simp_all
      with False ns ct show ?thesis by (simp add: carve_push)
    qed
  qed
qed

lemma carve_same_size:
  "width (fst (carve g gr stack visited)) = width g \<and>
   height (fst (carve g gr stack visited)) = height g"
proof (induction g gr stack visited rule: carve.induct)
  case (1 g gr stack visited)
  let ?c = "last stack"
  let ?ns = "getUnvisitedNeighbors g ?c visited"
  show ?case
  proof (cases "stack = []")
    case True
    then show ?thesis by (simp add: carve_empty)
  next
    case False
    show ?thesis
    proof (cases "?ns = []")
      case True
      with "1.IH"(2) [OF _ refl refl] False show ?thesis
        by (simp add: carve_pop)
    next
      case ns: False
      obtain g' res where ct: "carve_to g gr ?c ?ns = (g', res)" by (cases "carve_to g gr ?c ?ns")
      have g': "width g' = width g \<and> height g' = height g"
        using ct by (auto simp: carve_to_def pick_neighbor_def split_beta)
      show ?thesis
      proof (cases res)
        case None
        with False ns ct g' show ?thesis by (simp add: carve_push)
      next
        case (Some pr)
        obtain n gr1 where pr: "pr = (n, gr1)" by (cases pr)
        from "1.IH"(1) [OF _ refl refl _ ct [symmetric] Some pr [symmetric]] False ns
        have "width (fst (carve g' gr1 (stack @ [n]) (insert (getStateKey n) visited))) = width g' \<and>
              height (fst (carve g' gr1 (stack @ [n]) (insert (getStateKey n) visited))) = height g'"
          by simp
        with False ns ct Some pr g' show ?thesis by (simp add: carve_push)
      qed
    qed
  qed
qed


lemma seed_iter_nonneg: "0 \<le> ((\<lambda>s. snd (SeededRandom_next s)) ^^ k) 555"
  by (induction k) (simp_all add: next_seed_range)

lemma generate_ok:
  assumes "2 \<le> width g" "2 \<le> height g"
  shows "\<exists>gr. snd (generate g) = Some gr \<and> grid_dims gr (width g) (height g)"
proof -
  let ?g = "g\<lparr>rng := 555\<rparr>"
  let ?start = "\<lparr>pos_x = 1, pos_y = 1\<rparr>"
  have d0: "grid_dims (init_grid (width g) (height g)) (width ?g) (height ?g)"
    by (simp add: init_grid_dims)
  from clear_wall_ok [OF d0, of 1 1] assms obtain gr1
    where c1: "clear_wall (init_grid (width g) (height g)) 1 1 = Some gr1" by auto
  with d0 have d1: "grid_dims gr1 (width ?g) (height ?g)" by (simp add: clear_wall_dims)
  have "\<forall>p\<in>set [?start]. in_grid ?g p" using assms by (simp add: in_grid_def)
  from carve_ok [OF d1 _ this, of "{getStateKey ?start}"] obtain g' gr2
    where cv: "carve ?g gr1 [?start] {getStateKey ?start} = (g', Some gr2)"
      and d2: "grid_dims gr2 (width g) (height g)" by auto
  let ?ps = "[(0, 0), (0, 1), (1, 0), (1, 1),
              (height g - 1, width g - 1), (height g - 2, width g - 1),
              (height g - 1, width g - 2), (height g - 2, width g - 2)]"
  from clear_walls_ok [OF d2, of ?ps] assms obtain gr3
    where c3: "clear_walls gr2 ?ps = Some gr3" by auto
  with d2 have "grid_dims gr3 (width g) (height g)" by (simp only: clear_walls_dims)
  with c1 cv c3 show ?thesis by (simp add: generate_def)
qed

lemma generate_corners:
  assumes "generate g = (g', Some gr)"
    and "(j, i) \<in> set [(0, 0), (0, 1), (1, 0), (1, 1),
              (height g - 1, width g - 1), (height g - 2, width g - 1),
              (height g - 1, width g - 2), (height g - 2, width g - 2)]"
  shows "is_open gr j i"
proof -
  from assms(1) obtain gr2 where "clear_walls gr2 [(0, 0), (0, 1), (1, 0), (1, 1),
              (height g - 1, width g - 1), (height g - 2, width g - 1),
              (height g - 1, width g - 2), (height g - 2, width g - 2)] = Some gr"
    by (auto simp: generate_def Let_def split: option.splits prod.splits)
  then show ?thesis using assms(2) by (rule clear_walls_opens)
qed

lemma generate_reseed: "generate (g\<lparr>rng := s\<rparr>) = generate g"
  by (simp add: generate_def)

lemma generate_depends_on_size:
  assumes "width g1 = width g2" "height g1 = height g2"
  shows "generate g1 = generate g2"
proof -
  from assms have "g1\<lparr>rng := 555\<rparr> = g2\<lparr>rng := 555\<rparr>" by simp
  then have "generate (g1\<lparr>rng := 555\<rparr>) = generate (g2\<lparr>rng := 555\<rparr>)" by (rule arg_cong)
  then show ?thesis by (simp only: generate_reseed)
qed

lemma generate_same_size:
  "width (fst (generate g)) = width g \<and> height (fst (generate g)) = height g"
proof (cases "clear_wall (init_grid (width g) (height g)) 1 1")
  case None
  then show ?thesis by (simp add: generate_def)
next
  case (Some gr1)
  obtain g' res where cv: "carve (g\<lparr>rng := 555\<rparr>) gr1 [\<lparr>pos_x = 1, pos_y = 1\<rparr>]
      {getStateKey \<lparr>pos_x = 1, pos_y = 1\<rparr>} = (g', res)"
    by (cases "carve (g\<lparr>rng := 555\<rparr>) gr1 [\<lparr>pos_x = 1, pos_y = 1\<rparr>]
      {getStateKey \<lparr>pos_x = 1, pos_y = 1\<rparr>}")
  with carve_same_size [of "g\<lparr>rng := 555\<rparr>" gr1 "[\<lparr>pos_x = 1, pos_y = 1\<rparr>]"
      "{getStateKey \<lparr>pos_x = 1, pos_y = 1\<rparr>}"]
  have "width g' = width g \<and> height g' = height g" by simp
  with Some cv show ?thesis by (cases res) (simp_all add: generate_def)
qed

lemma generate_iter_same_size:
  "width (((\<lambda>g. fst (generate g)) ^^ k) g) = width g \<and>
   height (((\<lambda>g. fst (generate g)) ^^ k) g) = height g"
  by (induction k) (simp_all add: generate_same_size)

lemma generate_3_3:
  "generate (MazeGenerator_new 3 3) =
     (\<lparr>width = 3, height = 3, rng = 555\<rparr>,
      Some
       [[\<lparr>cell_x = 0, cell_y = 0, isWall = False\<rparr>,
         \<lparr>cell_x = 1, cell_y = 0, isWall = False\<rparr>,
         \<lparr>cell_x = 2, cell_y = 0, isWall = True\<rparr>],
        [\<lparr>cell_x = 0, cell_y = 1, isWall = False\<rparr>,
         \<lparr>cell_x = 1, cell_y = 1, isWall = False\<rparr>,
         \<lparr>cell_x = 2, cell_y = 1, isWall = False\<rparr>],
        [\<lparr>cell_x = 0, cell_y = 2, isWall = True\<rparr>,
         \<lparr>cell_x = 1, cell_y = 2, isWall = False\<rparr>,
         \<lparr>cell_x = 2, cell_y = 2, isWall = False\<rparr>]])"
  by code_simp

lemma neighbors_5_5:
  "getUnvisitedNeighbors (MazeGenerator_new 5 5) \<lparr>pos_x = 1, pos_y = 1\<rparr> {''1,1''} =
     [\<lparr>pos_x = 3, pos_y = 1\<rparr>, \<lparr>pos_x = 1, pos_y = 3\<rparr>]"
  by code_simp

section \<open>The claims about the maze generator\<close>

text \<open>
  C2, as the claim states it, fails: with width 1 and height 1 the grid has the single
  row \<^verbatim>\<open>grid[0]\<close>, and the first statement after its construction,
  \<^verbatim>\<open>grid[1][1].isWall = false\<close>, throws.
\<close>

theorem generate_fails_at_1_by_1:
  "1 \<le> width (MazeGenerator_new 1 1) \<and> 1 \<le> height (MazeGenerator_new 1 1) \<and>
   snd (generate (MazeGenerator_new 1 1)) = None"
  by code_simp

text \<open>
  C2, amended. For every width and height of at least 2, \<^verbatim>\<open>generate()\<close> does not fail:
  it returns a grid of \<open>height\<close> rows of \<open>width\<close> cells each.
\<close>

theorem generate_succeeds_from_2_by_2:
  assumes "2 \<le> width g" and "2 \<le> height g"
  shows "\<exists>gr. snd (generate g) = Some gr \<and> grid_dims gr (width g) (height g)"
  using assms by (rule generate_ok)

theorem generate_succeeds_from_2_by_2_witness:
  "2 \<le> width (MazeGenerator_new 3 3) \<and> 2 \<le> height (MazeGenerator_new 3 3) \<and>
   (\<exists>gr. snd (generate (MazeGenerator_new 3 3)) = Some gr \<and> grid_dims gr 3 3)"
proof -
  have hyps: "2 \<le> width (MazeGenerator_new 3 3)" "2 \<le> height (MazeGenerator_new 3 3)"
    by (simp_all add: MazeGenerator_new_def)
  from generate_succeeds_from_2_by_2 [OF hyps] hyps show ?thesis
    by (simp add: MazeGenerator_new_def)
qed

text \<open>
  C4. The grid \<^verbatim>\<open>generate()\<close> returns depends on the width and the height only, not
  on the state of the random generator the instance holds: two instances of the same
  dimensions give the same result, and so does the same instance after any number of
  earlier calls, and a newly constructed instance of these dimensions.
\<close>

theorem generate_is_deterministic:
  assumes "width g1 = width g2" and "height g1 = height g2"
  shows "snd (generate g1) = snd (generate g2) \<and>
         (\<forall>k. snd (generate (((\<lambda>g. fst (generate g)) ^^ k) g1)) = snd (generate g1)) \<and>
         snd (generate (MazeGenerator_new (width g1) (height g1))) = snd (generate g1)"
proof (intro conjI allI)
  show "snd (generate g1) = snd (generate g2)"
    using generate_depends_on_size [OF assms] by simp
next
  fix k
  have "generate (((\<lambda>g. fst (generate g)) ^^ k) g1) = generate g1"
    by (rule generate_depends_on_size) (simp_all only: generate_iter_same_size)
  then show "snd (generate (((\<lambda>g. fst (generate g)) ^^ k) g1)) = snd (generate g1)"
    by simp
next
  have "generate (MazeGenerator_new (width g1) (height g1)) = generate g1"
    by (rule generate_depends_on_size) (simp_all add: MazeGenerator_new_def)
  then show "snd (generate (MazeGenerator_new (width g1) (height g1))) = snd (generate g1)"
    by simp
qed

theorem generate_is_deterministic_witness:
  "width \<lparr>width = 3, height = 3, rng = 4711\<rparr> = width (MazeGenerator_new 3 3) \<and>
   height \<lparr>width = 3, height = 3, rng = 4711\<rparr> = height (MazeGenerator_new 3 3) \<and>
   snd (generate \<lparr>width = 3, height = 3, rng = 4711\<rparr>) = snd (generate (MazeGenerator_new 3 3)) \<and>
   snd (generate (fst (generate \<lparr>width = 3, height = 3, rng = 4711\<rparr>))) =
     snd (generate \<lparr>width = 3, height = 3, rng = 4711\<rparr>)"
proof -
  let ?g = "\<lparr>width = 3, height = 3, rng = 4711\<rparr>"
  have hyps: "width ?g = width (MazeGenerator_new 3 3)" "height ?g = height (MazeGenerator_new 3 3)"
    by (simp_all add: MazeGenerator_new_def)
  note inst = generate_is_deterministic [OF hyps]
  from inst have same: "snd (generate ?g) = snd (generate (MazeGenerator_new 3 3))"
    by (rule conjunct1)
  from inst have "\<forall>k. snd (generate (((\<lambda>g. fst (generate g)) ^^ k) ?g)) = snd (generate ?g)"
    by (rule conjunct2 [THEN conjunct1])
  then have "snd (generate (((\<lambda>g. fst (generate g)) ^^ Suc 0) ?g)) = snd (generate ?g)"
    by (rule spec)
  then have again: "snd (generate (fst (generate ?g))) = snd (generate ?g)"
    by (simp only: funpow.simps comp_apply id_apply)
  from hyps same again show ?thesis by (intro conjI)
qed

text \<open>
  C5. Whenever \<^verbatim>\<open>generate()\<close> returns a grid, the cells (0,0), (1,0), (0,1), (1,1)
  and the cells (width-1,height-1), (width-1,height-2), (width-2,height-1),
  (width-2,height-2) exist in it and are not walls.
\<close>

theorem corner_blocks_are_open:
  assumes "generate g = (g', Some gr)"
  shows "is_open gr 0 0 \<and> is_open gr 0 1 \<and> is_open gr 1 0 \<and> is_open gr 1 1 \<and>
         is_open gr (height g - 1) (width g - 1) \<and> is_open gr (height g - 2) (width g - 1) \<and>
         is_open gr (height g - 1) (width g - 2) \<and> is_open gr (height g - 2) (width g - 2)"
  using generate_corners [OF assms] by simp

theorem corner_blocks_are_open_witness:
  "fst (generate (MazeGenerator_new 3 3)) = \<lparr>width = 3, height = 3, rng = 555\<rparr> \<and>
   map (map isWall) (the (snd (generate (MazeGenerator_new 3 3)))) =
     [[False, False, True], [False, False, False], [True, False, False]] \<and>
   is_open (the (snd (generate (MazeGenerator_new 3 3)))) 0 0 \<and>
   is_open (the (snd (generate (MazeGenerator_new 3 3)))) 1 1 \<and>
   is_open (the (snd (generate (MazeGenerator_new 3 3)))) 2 2 \<and>
   is_open (the (snd (generate (MazeGenerator_new 3 3)))) 1 2 \<and>
   is_open (the (snd (generate (MazeGenerator_new 3 3)))) 2 1"
proof -
  have size: "width (MazeGenerator_new 3 3) = 3" "height (MazeGenerator_new 3 3) = 3"
    by (simp_all add: MazeGenerator_new_def)
  from corner_blocks_are_open [OF generate_3_3] show ?thesis
    by (simp add: generate_3_3 size)
qed

text \<open>
  C9. The seed of the maze generator's \<^verbatim>\<open>SeededRandom\<close> starts at 555 and every value
  \<^verbatim>\<open>next()\<close> then produces lies in \<open>[0, 1)\<close>. In the loop of \<^verbatim>\<open>generate()\<close>, where the
  seed is not negative, the grid has the generator's dimensions and the cell on top of
  the stack lies in the grid: when the candidate list is not empty, the index
  \<^verbatim>\<open>Math.floor(rng.next() * neighbors.length)\<close> is at least 0 and below the length of
  the list, the chosen cell is one of the candidates (an unvisited cell of the
  interior), and the two writes, at the midpoint and at the chosen cell, do not throw.
  The loop keeps these conditions: the new seed is not negative, the chosen cell lies in
  the grid and the grid keeps its dimensions.
\<close>

theorem seeded_choice_is_in_range:
  assumes "0 \<le> rng g"
    and "grid_dims gr (width g) (height g)"
    and "in_grid g c"
    and "getUnvisitedNeighbors g c v \<noteq> []"
  shows "(\<forall>k. 0 \<le> fst (SeededRandom_next (((\<lambda>s. snd (SeededRandom_next s)) ^^ k) 555)) \<and>
              fst (SeededRandom_next (((\<lambda>s. snd (SeededRandom_next s)) ^^ k) 555)) < 1) \<and>
         0 \<le> fst (SeededRandom_next (rng g)) \<and> fst (SeededRandom_next (rng g)) < 1 \<and>
         0 \<le> snd (SeededRandom_next (rng g)) \<and>
         0 \<le> \<lfloor>fst (SeededRandom_next (rng g)) * real (length (getUnvisitedNeighbors g c v))\<rfloor> \<and>
         \<lfloor>fst (SeededRandom_next (rng g)) * real (length (getUnvisitedNeighbors g c v))\<rfloor>
           < int (length (getUnvisitedNeighbors g c v)) \<and>
         (\<exists>n gr'. carve_to g gr c (getUnvisitedNeighbors g c v) =
                    (g\<lparr>rng := snd (SeededRandom_next (rng g))\<rparr>, Some (n, gr')) \<and>
                  n \<in> set (getUnvisitedNeighbors g c v) \<and>
                  0 < pos_x n \<and> pos_x n < width g - 1 \<and>
                  0 < pos_y n \<and> pos_y n < height g - 1 \<and>
                  getStateKey n \<notin> v \<and>
                  in_grid g n \<and> grid_dims gr' (width g) (height g))"
proof -
  have "0 \<le> fst (SeededRandom_next (((\<lambda>s. snd (SeededRandom_next s)) ^^ k) 555)) \<and>
        fst (SeededRandom_next (((\<lambda>s. snd (SeededRandom_next s)) ^^ k) 555)) < 1" for k
    by (rule next_value_range) (rule seed_iter_nonneg)
  moreover note next_value_range [OF assms(1)] next_seed_range [OF assms(1)]
  moreover have "0 \<le> \<lfloor>fst (SeededRandom_next (rng g)) * real (length (getUnvisitedNeighbors g c v))\<rfloor> \<and>
         \<lfloor>fst (SeededRandom_next (rng g)) * real (length (getUnvisitedNeighbors g c v))\<rfloor>
           < int (length (getUnvisitedNeighbors g c v))"
    using next_value_range [OF assms(1)] assms(4) by (intro floor_index_range) simp_all
  moreover from carve_to_ok [OF assms(2,1,3,4)] obtain n gr'
    where "carve_to g gr c (getUnvisitedNeighbors g c v) =
             (g\<lparr>rng := snd (SeededRandom_next (rng g))\<rparr>, Some (n, gr'))"
      and "n \<in> set (getUnvisitedNeighbors g c v)"
      and "grid_dims gr' (width g) (height g)" and "in_grid g n"
    by blast
  moreover from neighbor_interior [OF this(2)]
  have "0 < pos_x n \<and> pos_x n < width g - 1 \<and> 0 < pos_y n \<and> pos_y n < height g - 1 \<and>
        getStateKey n \<notin> v" .
  ultimately show ?thesis by blast
qed

theorem seeded_choice_is_in_range_witness:
  "0 \<le> rng (MazeGenerator_new 5 5) \<and>
   grid_dims (init_grid 5 5) (width (MazeGenerator_new 5 5)) (height (MazeGenerator_new 5 5)) \<and>
   in_grid (MazeGenerator_new 5 5) \<lparr>pos_x = 1, pos_y = 1\<rparr> \<and>
   getUnvisitedNeighbors (MazeGenerator_new 5 5) \<lparr>pos_x = 1, pos_y = 1\<rparr> {''1,1''} =
     [\<lparr>pos_x = 3, pos_y = 1\<rparr>, \<lparr>pos_x = 1, pos_y = 3\<rparr>] \<and>
   SeededRandom_next 555 = (79192 / 233280, 79192) \<and>
   \<lfloor>fst (SeededRandom_next 555) * real (length [\<lparr>pos_x = 3, pos_y = 1\<rparr>, \<lparr>pos_x = 1, pos_y = 3\<rparr>])\<rfloor>
     = 0 \<and>
   (\<exists>gr'. carve_to (MazeGenerator_new 5 5) (init_grid 5 5) \<lparr>pos_x = 1, pos_y = 1\<rparr>
            [\<lparr>pos_x = 3, pos_y = 1\<rparr>, \<lparr>pos_x = 1, pos_y = 3\<rparr>] =
          (\<lparr>width = 5, height = 5, rng = 79192\<rparr>, Some (\<lparr>pos_x = 3, pos_y = 1\<rparr>, gr')))"
proof -
  let ?g = "MazeGenerator_new 5 5" and ?c = "\<lparr>pos_x = 1, pos_y = 1\<rparr>"
  let ?ns = "[\<lparr>pos_x = 3, pos_y = 1\<rparr>, \<lparr>pos_x = 1, pos_y = 3\<rparr>]"
  have fields: "rng ?g = 555" "width ?g = 5" "height ?g = 5"
    by (simp_all add: MazeGenerator_new_def)
  have seed: "0 \<le> rng ?g" by (simp add: fields)
  have dims: "grid_dims (init_grid 5 5) (width ?g) (height ?g)"
    by (simp add: fields init_grid_dims)
  have cur: "in_grid ?g ?c" by (simp add: in_grid_def fields)
  have ns: "getUnvisitedNeighbors ?g ?c {''1,1''} \<noteq> []" by (simp add: neighbors_5_5)
  have nxt: "SeededRandom_next 555 = (79192 / 233280, 79192)"
    by (simp add: SeededRandom_next_def signed_modulo_int_def)
  have idx: "\<lfloor>fst (SeededRandom_next 555) * real (length ?ns)\<rfloor> = 0"
    by (simp add: nxt)
  have pick: "fst (pick_neighbor ?g ?ns) = Some \<lparr>pos_x = 3, pos_y = 1\<rparr>"
  proof -
    have "fst (pick_neighbor ?g ?ns) =
        array_get ?ns \<lfloor>fst (SeededRandom_next 555) * real (length ?ns)\<rfloor>"
      by (simp add: pick_neighbor_def fields split_beta)
    also have "\<dots> = array_get ?ns 0" by (simp only: idx)
    also have "\<dots> = Some \<lparr>pos_x = 3, pos_y = 1\<rparr>" by (simp add: array_get_def)
    finally show ?thesis .
  qed
  have g': "?g\<lparr>rng := snd (SeededRandom_next (rng ?g))\<rparr> = \<lparr>width = 5, height = 5, rng = 79192\<rparr>"
    by (simp add: fields nxt)
  from seeded_choice_is_in_range [OF seed dims cur ns] obtain n gr'
    where "carve_to ?g (init_grid 5 5) ?c (getUnvisitedNeighbors ?g ?c {''1,1''}) =
             (?g\<lparr>rng := snd (SeededRandom_next (rng ?g))\<rparr>, Some (n, gr'))"
    by blast
  then have ct: "carve_to ?g (init_grid 5 5) ?c ?ns = (\<lparr>width = 5, height = 5, rng = 79192\<rparr>, Some (n, gr'))"
    by (simp only: neighbors_5_5 g')
  have "snd (carve_to ?g (init_grid 5 5) ?c ?ns) \<noteq> None \<longrightarrow>
        fst (pick_neighbor ?g ?ns) = Some (fst (the (snd (carve_to ?g (init_grid 5 5) ?c ?ns))))"
    by (simp add: carve_to_def split_beta split: option.splits)
  with ct pick have "n = \<lparr>pos_x = 3, pos_y = 1\<rparr>" by simp
  with ct have "\<exists>gr'. carve_to ?g (init_grid 5 5) ?c ?ns =
      (\<lparr>width = 5, height = 5, rng = 79192\<rparr>, Some (\<lparr>pos_x = 3, pos_y = 1\<rparr>, gr'))"
    by blast
  with seed dims cur nxt idx neighbors_5_5 show ?thesis
    by (intro conjI)
qed

end
